theory Spec2Isabelle
  imports Main "HOL-Library.Multiset" "HOL-Library.List_Lexorder" "HOL-Library.Char_ord"
begin

section \<open>JavaScript values and string operations used by fetch-ebird.js\<close>

text \<open>
  A JavaScript string is modelled as a \<open>string\<close>, one \<open>char\<close> per code unit; the model
  covers the code units 0..255. \<open>String.prototype.trim\<close> removes WhiteSpace and
  LineTerminator code units; below 256 these are TAB, LF, VT, FF, CR, SPACE and NBSP.
\<close>

datatype error = TypeError

definition isWhiteSpace :: "char \<Rightarrow> bool" where
  "isWhiteSpace c =
     (c = CHR 0x09 \<or> c = CHR 0x0A \<or> c = CHR 0x0B \<or> c = CHR 0x0C \<or> c = CHR 0x0D \<or>
      c = CHR 0x20 \<or> c = CHR 0xA0)"

definition trim :: "string \<Rightarrow> string" where
  "trim s = rev (dropWhile isWhiteSpace (rev (dropWhile isWhiteSpace s)))"

text \<open>
  \<open>s.split(c)\<close> for a one-character separator: the pieces between the occurrences of
  \<open>c\<close>; the result always has at least one element, and \<open>"".split(c)\<close> is \<open>[""]\<close>
  (so the recursive result is never empty, and the first branch of the \<open>case\<close> is never
  taken).
\<close>

fun split :: "char \<Rightarrow> string \<Rightarrow> string list" where
  "split c [] = [[]]"
| "split c (x # xs) =
     (if x = c then [] # split c xs
      else (case split c xs of
              [] \<Rightarrow> [[x]]
            | piece # pieces \<Rightarrow> (x # piece) # pieces))"

text \<open>\<open>s.padStart(n, c)\<close> for a one-character filler.\<close>

definition padStart :: "nat \<Rightarrow> char \<Rightarrow> string \<Rightarrow> string" where
  "padStart n c s = replicate (n - length s) c @ s"

text \<open>
  The values that can flow through the parser: a string, \<open>undefined\<close> (an array read
  past the end, a missing property), and what a property read on an object literal can
  find on \<open>Object.prototype\<close>: a built-in function (given by its name) or, through
  \<open>__proto__\<close>, \<open>Object.prototype\<close> itself.
\<close>

datatype jsval = Undefined | Str string | NativeFunction string | ObjectPrototype

text \<open>\<open>a[i]\<close> on an array of strings: \<open>undefined\<close> out of range.\<close>

definition at :: "string list \<Rightarrow> nat \<Rightarrow> jsval" where
  "at a i = (if i < length a then Str (a ! i) else Undefined)"

text \<open>ToBoolean.\<close>

fun truthy :: "jsval \<Rightarrow> bool" where
  "truthy Undefined = False"
| "truthy (Str s) = (s \<noteq> [])"
| "truthy (NativeFunction n) = True"
| "truthy ObjectPrototype = True"

text \<open>
  ToString, as a template literal and a property key apply it. The text of a built-in
  function is the one Node.js (V8) prints.
\<close>

fun toString :: "jsval \<Rightarrow> string" where
  "toString Undefined = ''undefined''"
| "toString (Str s) = s"
| "toString (NativeFunction n) = ''function '' @ n @ ''() { [native code] }''"
| "toString ObjectPrototype = ''[object Object]''"

text \<open>
  The function-valued properties of \<open>Object.prototype\<close>, each with the name of the
  function it holds.
\<close>

definition objectPrototypeFunctions :: "(string \<times> string) list" where
  "objectPrototypeFunctions =
     [(''constructor'', ''Object''),
      (''__defineGetter__'', ''__defineGetter__''),
      (''__defineSetter__'', ''__defineSetter__''),
      (''hasOwnProperty'', ''hasOwnProperty''),
      (''__lookupGetter__'', ''__lookupGetter__''),
      (''__lookupSetter__'', ''__lookupSetter__''),
      (''isPrototypeOf'', ''isPrototypeOf''),
      (''propertyIsEnumerable'', ''propertyIsEnumerable''),
      (''toString'', ''toString''),
      (''valueOf'', ''valueOf''),
      (''toLocaleString'', ''toLocaleString'')]"

text \<open>
  \<open>obj[key]\<close> on an object literal whose own properties are the given string pairs: an
  own property first, then the prototype chain, which is \<open>Object.prototype\<close>.
\<close>

definition getProp :: "(string \<times> string) list \<Rightarrow> string \<Rightarrow> jsval" where
  "getProp obj key =
     (case map_of obj key of
        Some v \<Rightarrow> Str v
      | None \<Rightarrow>
          (case map_of objectPrototypeFunctions key of
             Some n \<Rightarrow> NativeFunction n
           | None \<Rightarrow> if key = ''__proto__'' then ObjectPrototype else Undefined))"

section \<open>parseEbirdDate\<close>

definition months :: "(string \<times> string) list" where
  "months =
     [(''Jan'', ''01''), (''Feb'', ''02''), (''Mar'', ''03''), (''Apr'', ''04''),
      (''May'', ''05''), (''Jun'', ''06''), (''Jul'', ''07''), (''Aug'', ''08''),
      (''Sep'', ''09''), (''Oct'', ''10''), (''Nov'', ''11''), (''Dec'', ''12'')]"

text \<open>
  The result is \<open>Inr None\<close> for \<open>null\<close>. \<open>parts[0].padStart\<close> is a method call and
  raises a TypeError on \<open>undefined\<close>; \<open>parts[1]\<close> is used as a property key and
  \<open>parts[2]\<close> inside a template literal, both through ToString.
\<close>

definition parseEbirdDate :: "string \<Rightarrow> error + string option" where
  "parseEbirdDate dateStr =
     (let parts = split CHR '' '' (trim dateStr) in
      if length parts \<noteq> 3 then Inr None
      else
        (case at parts 0 of
           Str p0 \<Rightarrow>
             (let day = padStart 2 CHR ''0'' p0;
                  month = getProp months (toString (at parts 1));
                  year = at parts 2
              in if \<not> truthy month then Inr None
                 else Inr (Some (toString year @ ''-'' @ toString month @ ''-'' @ day)))
         | _ \<Rightarrow> Inl TypeError))"

section \<open>parseCSV\<close>

subsection \<open>The row tokenizer\<close>

text \<open>
  The inner loop of \<open>parseCSV\<close> over the code units of one trimmed line: \<open>columns\<close>,
  \<open>current\<close> and \<open>inQuotes\<close> are its three variables.
\<close>

record scanner =
  columns :: "string list"
  current :: string
  inQuotes :: bool

definition scanStart :: scanner where
  "scanStart = \<lparr>columns = [], current = [], inQuotes = False\<rparr>"

definition scanChar :: "scanner \<Rightarrow> char \<Rightarrow> scanner" where
  "scanChar st ch =
     (if ch = CHR 0x22 then st\<lparr>inQuotes := \<not> inQuotes st\<rparr>
      else if ch = CHR '','' \<and> \<not> inQuotes st
        then st\<lparr>columns := columns st @ [trim (current st)], current := []\<rparr>
      else st\<lparr>current := current st @ [ch]\<rparr>)"

definition scan :: "string \<Rightarrow> scanner" where
  "scan line = foldl scanChar scanStart line"

text \<open>The loop followed by the final \<open>columns.push(current.trim())\<close>.\<close>

definition tokenize :: "string \<Rightarrow> string list" where
  "tokenize line = (let st = scan line in columns st @ [trim (current st)])"

subsection \<open>One row\<close>

text \<open>
  The object pushed for a row. \<open>date\<close> and \<open>location\<close> are results of string
  operations; the other three fields hold whatever the array read gave.
\<close>

record observation =
  date :: string
  sciName :: jsval
  common :: jsval
  location :: string
  region :: jsval

text \<open>\<open>s.replace(/"/g, '')\<close>.\<close>

definition stripQuotes :: "string \<Rightarrow> string" where
  "stripQuotes s = filter (\<lambda>c. c \<noteq> CHR 0x22) s"

text \<open>
  A method call on a value: the value itself when it is a string, a TypeError otherwise
  (\<open>undefined.trim()\<close>, \<open>undefined.replace(...)\<close>).
\<close>

fun receiver :: "jsval \<Rightarrow> error + string" where
  "receiver (Str s) = Inr s"
| "receiver v = Inl TypeError"

text \<open>
  The body of the outer loop for one element of \<open>lines\<close>: \<open>Inr None\<close> when the row
  pushes nothing, \<open>Inr (Some ob)\<close> when it pushes \<open>ob\<close>, \<open>Inl\<close> when it raises.
  \<open>parseEbirdDate(columns[8])\<close> raises at \<open>dateStr.trim()\<close> when its argument is
  \<open>undefined\<close>. \<open>if (date)\<close> is false for \<open>null\<close> and for the empty string.
\<close>

definition parseRow :: "string \<Rightarrow> error + observation option" where
  "parseRow raw =
     (let line = trim raw in
      if line = [] then Inr None
      else
        (let cols = tokenize line in
         if length cols \<ge> 9 then
           (case receiver (at cols 8) of
              Inl e \<Rightarrow> Inl e
            | Inr c8 \<Rightarrow>
                (case parseEbirdDate c8 of
                   Inl e \<Rightarrow> Inl e
                 | Inr None \<Rightarrow> Inr None
                 | Inr (Some d) \<Rightarrow>
                     if d = [] then Inr None
                     else
                       (case receiver (at cols 6) of
                          Inl e \<Rightarrow> Inl e
                        | Inr c6 \<Rightarrow>
                            Inr (Some \<lparr>date = d,
                                       sciName = at cols 4,
                                       common = at cols 3,
                                       location = stripQuotes c6,
                                       region = at cols 7\<rparr>))))
         else Inr None))"

text \<open>The outer loop from \<open>i = 1\<close>, over the lines after the first.\<close>

fun rowsLoop :: "string list \<Rightarrow> observation list \<Rightarrow> error + observation list" where
  "rowsLoop [] obs = Inr obs"
| "rowsLoop (l # ls) obs =
     (case parseRow l of
        Inl e \<Rightarrow> Inl e
      | Inr None \<Rightarrow> rowsLoop ls obs
      | Inr (Some ob) \<Rightarrow> rowsLoop ls (obs @ [ob]))"

subsection \<open>Date.parse on the date field\<close>

text \<open>
  \<open>new Date(s)\<close> parses \<open>s\<close>; its number value is the time value in milliseconds, or
  NaN (\<open>None\<close>). ECMAScript fixes the result for the date-only form \<open>YYYY-MM-DD\<close>
  (midnight UTC of that day) and requires NaN for out-of-bounds element values; for any
  other string the engine may apply its own heuristics. That engine-specific rest of
  \<open>Date.parse\<close> is the parameter \<open>impl\<close> of the definitions below.
\<close>

definition isDigit :: "char \<Rightarrow> bool" where
  "isDigit c = (CHR ''0'' \<le> c \<and> c \<le> CHR ''9'')"

definition digitVal :: "char \<Rightarrow> int" where
  "digitVal c = of_char c - 48"

fun number :: "string \<Rightarrow> int" where
  "number [] = 0"
| "number (c # cs) = digitVal c * 10 ^ length cs + number cs"

text \<open>The year, month and day of a string of the shape \<open>DDDD-DD-DD\<close>.\<close>

fun isoDateOnly :: "string \<Rightarrow> (int \<times> int \<times> int) option" where
  "isoDateOnly [y1, y2, y3, y4, s1, m1, m2, s2, d1, d2] =
     (if list_all isDigit [y1, y2, y3, y4, m1, m2, d1, d2] \<and> s1 = CHR ''-'' \<and> s2 = CHR ''-''
      then Some (number [y1, y2, y3, y4], number [m1, m2], number [d1, d2])
      else None)"
| "isoDateOnly s = None"

definition inLeapYear :: "int \<Rightarrow> bool" where
  "inLeapYear y = (y mod 4 = 0 \<and> (y mod 100 \<noteq> 0 \<or> y mod 400 = 0))"

definition daysInMonth :: "int \<Rightarrow> int \<Rightarrow> int" where
  "daysInMonth y m =
     (if m = 2 then (if inLeapYear y then 29 else 28)
      else if m = 4 \<or> m = 6 \<or> m = 9 \<or> m = 11 then 30 else 31)"

text \<open>ECMAScript's DayFromYear: the day number of 1 January of year \<open>y\<close>.\<close>

definition dayFromYear :: "int \<Rightarrow> int" where
  "dayFromYear y =
     365 * (y - 1970) + (y - 1969) div 4 - (y - 1901) div 100 + (y - 1601) div 400"

text \<open>The number of days of year \<open>y\<close> before the first of month \<open>m\<close> (1..12).\<close>

fun daysBeforeMonth :: "int \<Rightarrow> nat \<Rightarrow> int" where
  "daysBeforeMonth y 0 = 0"
| "daysBeforeMonth y (Suc 0) = 0"
| "daysBeforeMonth y (Suc m) = daysBeforeMonth y m + daysInMonth y (int m)"

text \<open>MakeDay and MakeDate for midnight of day \<open>d\<close> of month \<open>m\<close> of year \<open>y\<close>.\<close>

definition makeDay :: "int \<Rightarrow> int \<Rightarrow> int \<Rightarrow> int" where
  "makeDay y m d = dayFromYear y + daysBeforeMonth y (nat m) + d - 1"

definition msPerDay :: int where
  "msPerDay = 86400000"

definition dateParse :: "(string \<Rightarrow> int option) \<Rightarrow> string \<Rightarrow> int option" where
  "dateParse impl s =
     (case isoDateOnly s of
        None \<Rightarrow> impl s
      | Some (y, m, d) \<Rightarrow>
          if m < 1 \<or> 12 < m \<or> d < 1 \<or> 31 < d then None
          else if d \<le> daysInMonth y m then Some (makeDay y m d * msPerDay)
          else impl s)"

subsection \<open>Sorting\<close>

text \<open>
  The comparator \<open>(a, b) => new Date(a.date) - new Date(b.date)\<close>: NaN when either
  date is NaN.
\<close>

definition compareFn :: "(string \<Rightarrow> int option) \<Rightarrow> observation \<Rightarrow> observation \<Rightarrow> int option" where
  "compareFn impl a b =
     (case (dateParse impl (date a), dateParse impl (date b)) of
        (Some x, Some y) \<Rightarrow> Some (x - y)
      | _ \<Rightarrow> None)"

text \<open>SortCompare of \<open>Array.prototype.sort\<close>: a NaN from the comparator counts as 0.\<close>

definition sortCompare :: "('a \<Rightarrow> 'a \<Rightarrow> int option) \<Rightarrow> 'a \<Rightarrow> 'a \<Rightarrow> int" where
  "sortCompare cmp x y = (case cmp x y of None \<Rightarrow> 0 | Some v \<Rightarrow> v)"

text \<open>
  \<open>Array.prototype.sort\<close> is a stable sort. For a consistent comparator its result is
  the one stable ordering of the input, whatever the algorithm; it is modelled by a
  stable insertion sort (an element goes before the first element it is not greater
  than, and elements are inserted from the last to the first).
\<close>

fun insertBy :: "('a \<Rightarrow> 'a \<Rightarrow> int option) \<Rightarrow> 'a \<Rightarrow> 'a list \<Rightarrow> 'a list" where
  "insertBy cmp x [] = [x]"
| "insertBy cmp x (y # ys) =
     (if sortCompare cmp x y \<le> 0 then x # y # ys else y # insertBy cmp x ys)"

definition arraySort :: "('a \<Rightarrow> 'a \<Rightarrow> int option) \<Rightarrow> 'a list \<Rightarrow> 'a list" where
  "arraySort cmp xs = foldr (insertBy cmp) xs []"

subsection \<open>parseCSV and the output document\<close>

definition parseCSV :: "(string \<Rightarrow> int option) \<Rightarrow> string \<Rightarrow> error + observation list" where
  "parseCSV impl csvContent =
     (let lines = split CHR 0x0A csvContent in
      case rowsLoop (drop 1 lines) [] of
        Inl e \<Rightarrow> Inl e
      | Inr obs \<Rightarrow> Inr (arraySort (compareFn impl) obs))"

record profile =
  lastSync :: string

record outputEnvelope =
  profile :: profile
  observations :: "observation list"
  exportedAt :: string

text \<open>
  Steps 4 and 5 of \<open>fetchEbirdLifeList\<close>: parse the text and build \<open>dataJson\<close>. The two
  \<open>new Date().toISOString()\<close> readings of the clock are the parameters \<open>t1\<close> and \<open>t2\<close>.
\<close>

definition run :: "(string \<Rightarrow> int option) \<Rightarrow> string \<Rightarrow> string \<Rightarrow> string \<Rightarrow> error + outputEnvelope" where
  "run impl t1 t2 csvContent =
     (case parseCSV impl csvContent of
        Inl e \<Rightarrow> Inl e
      | Inr obs \<Rightarrow>
          Inr \<lparr>profile = \<lparr>lastSync = t1\<rparr>, observations = obs, exportedAt = t2\<rparr>)"

section \<open>Notions used in the statements\<close>


text \<open>What one element of \<open>lines\<close> adds to \<open>observations\<close>: one record or nothing.\<close>

definition rowObservations :: "string \<Rightarrow> observation list" where
  "rowObservations l = (case parseRow l of Inr (Some ob) \<Rightarrow> [ob] | _ \<Rightarrow> [])"

text \<open>A text with every line feed replaced by carriage return and line feed.\<close>

definition toCRLF :: "string \<Rightarrow> string" where
  "toCRLF s = concat (map (\<lambda>c. if c = CHR 0x0A then [CHR 0x0D, CHR 0x0A] else [c]) s)"

text \<open>
  The spec's words for the input of the date normalizer, "three whitespace-separated
  tokens": the maximal runs of non-whitespace characters of a text.
\<close>

fun whitespaceTokensFrom :: "string \<Rightarrow> string \<Rightarrow> string list" where
  "whitespaceTokensFrom tok [] = (if tok = [] then [] else [tok])"
| "whitespaceTokensFrom tok (c # cs) =
     (if isWhiteSpace c
      then (if tok = [] then whitespaceTokensFrom [] cs else tok # whitespaceTokensFrom [] cs)
      else whitespaceTokensFrom (tok @ [c]) cs)"

definition whitespaceTokens :: "string \<Rightarrow> string list" where
  "whitespaceTokens s = whitespaceTokensFrom [] s"

text \<open>A valid 10-character ISO date \<open>YYYY-MM-DD\<close>: the shape, and a day that exists.\<close>

definition isIsoDate :: "string \<Rightarrow> bool" where
  "isIsoDate s =
     (case isoDateOnly s of
        None \<Rightarrow> False
      | Some (y, m, d) \<Rightarrow> 1 \<le> m \<and> m \<le> 12 \<and> 1 \<le> d \<and> d \<le> daysInMonth y m)"

text \<open>A year part of four digits; a day part of one or two digits that is a day of the month.\<close>

definition isYearText :: "string \<Rightarrow> bool" where
  "isYearText y = (length y = 4 \<and> list_all isDigit y)"

definition isDayText :: "string \<Rightarrow> string \<Rightarrow> string \<Rightarrow> bool" where
  "isDayText y mm d =
     ((length d = 1 \<or> length d = 2) \<and> list_all isDigit d \<and>
      1 \<le> number d \<and> number d \<le> daysInMonth (number y) (number mm))"



section \<open>Properties of the string operations\<close>

lemma trim_Nil: "trim [] = []"
  by (simp add: trim_def)

lemma trim_all_ws:
  assumes "\<And>c. c \<in> set w \<Longrightarrow> isWhiteSpace c"
  shows "trim w = []"
proof -
  have "dropWhile isWhiteSpace w = []"
    by (rule dropWhile_eq_Nil_conv [THEN iffD2]) (simp add: assms)
  then show ?thesis by (simp add: trim_def del: dropWhile_eq_Nil_conv)
qed

lemma trim_sandwich:
  assumes w1: "\<And>c. c \<in> set w1 \<Longrightarrow> isWhiteSpace c"
    and w2: "\<And>c. c \<in> set w2 \<Longrightarrow> isWhiteSpace c"
    and m: "m \<noteq> []" "\<not> isWhiteSpace (hd m)" "\<not> isWhiteSpace (last m)"
  shows "trim (w1 @ m @ w2) = m"
proof -
  have a: "dropWhile isWhiteSpace (w1 @ m @ w2) = dropWhile isWhiteSpace (m @ w2)"
    using w1 by (simp add: dropWhile_append2)
  have b: "dropWhile isWhiteSpace (m @ w2) = m @ w2"
    using m by (cases m) simp_all
  have c: "dropWhile isWhiteSpace (rev w2 @ rev m) = dropWhile isWhiteSpace (rev m)"
    by (rule dropWhile_append2) (simp add: w2)
  have d: "dropWhile isWhiteSpace (rev m) = rev m"
    using m by (cases "rev m") (simp_all add: hd_rev)
  show ?thesis
    unfolding trim_def by (simp add: a b c d)
qed

lemma trim_decompose:
  "(trim s = [] \<and> (\<forall>c\<in>set s. isWhiteSpace c)) \<or>
   (\<exists>w1 w2. s = w1 @ trim s @ w2 \<and> (\<forall>c\<in>set w1. isWhiteSpace c) \<and> (\<forall>c\<in>set w2. isWhiteSpace c) \<and>
       trim s \<noteq> [] \<and> \<not> isWhiteSpace (hd (trim s)) \<and> \<not> isWhiteSpace (last (trim s)))"
proof (cases "dropWhile isWhiteSpace s = []")
  case True
  then have "\<forall>c\<in>set s. isWhiteSpace c" by (rule dropWhile_eq_Nil_conv [THEN iffD1])
  moreover have "trim s = []" using True by (simp add: trim_def del: dropWhile_eq_Nil_conv)
  ultimately show ?thesis by blast
next
  case False
  define r where "r = dropWhile isWhiteSpace s"
  define w1 where "w1 = takeWhile isWhiteSpace s"
  define q where "q = dropWhile isWhiteSpace (rev r)"
  define w2 where "w2 = rev (takeWhile isWhiteSpace (rev r))"
  have s: "s = w1 @ r" by (simp add: w1_def r_def)
  have hd_r: "\<not> isWhiteSpace (hd r)" using False unfolding r_def by (rule hd_dropWhile)
  have r_ne: "r \<noteq> []" using False by (simp add: r_def)
  have "rev r = takeWhile isWhiteSpace (rev r) @ q" by (simp add: q_def)
  then have "rev (rev r) = rev (takeWhile isWhiteSpace (rev r) @ q)" by simp
  then have r: "r = rev q @ w2" by (simp add: w2_def)
  have t: "trim s = rev q" by (simp add: trim_def q_def r_def)
  have "hd r \<in> set r" using r_ne by simp
  then have "\<exists>x\<in>set (rev r). \<not> isWhiteSpace x" using hd_r by auto
  then have q_ne: "q \<noteq> []" unfolding q_def by (simp add: dropWhile_eq_Nil_conv)
  then have "\<not> isWhiteSpace (hd q)" unfolding q_def by (rule hd_dropWhile)
  then have last_q: "\<not> isWhiteSpace (last (rev q))" using q_ne by (simp add: last_rev)
  have hd_q: "\<not> isWhiteSpace (hd (rev q))" using hd_r r q_ne by simp
  have ws1: "\<forall>c\<in>set w1. isWhiteSpace c" unfolding w1_def by (auto dest: set_takeWhileD)
  have ws2: "\<forall>c\<in>set w2. isWhiteSpace c" unfolding w2_def by (auto dest: set_takeWhileD)
  have "s = w1 @ trim s @ w2" using s r t by simp
  then show ?thesis using ws1 ws2 q_ne last_q hd_q t by auto
qed

lemma trim_idem: "trim (trim s) = trim s"
proof -
  from trim_decompose [of s] show ?thesis
  proof
    assume "trim s = [] \<and> (\<forall>c\<in>set s. isWhiteSpace c)"
    then show ?thesis by (simp add: trim_Nil)
  next
    assume "\<exists>w1 w2. s = w1 @ trim s @ w2 \<and> (\<forall>c\<in>set w1. isWhiteSpace c) \<and> (\<forall>c\<in>set w2. isWhiteSpace c) \<and>
       trim s \<noteq> [] \<and> \<not> isWhiteSpace (hd (trim s)) \<and> \<not> isWhiteSpace (last (trim s))"
    then have "trim ([] @ trim s @ []) = trim s"
      by (intro trim_sandwich) auto
    then show ?thesis by simp
  qed
qed

lemma trim_snoc_ws:
  assumes "isWhiteSpace c"
  shows "trim (s @ [c]) = trim s"
proof (cases "\<forall>x\<in>set s. isWhiteSpace x")
  case True
  then have "trim (s @ [c]) = []" using assms by (intro trim_all_ws) auto
  moreover have "trim s = []" using True by (intro trim_all_ws) auto
  ultimately show ?thesis by simp
next
  case False
  then obtain x where "x \<in> set s" "\<not> isWhiteSpace x" by blast
  then have "dropWhile isWhiteSpace (s @ [c]) = dropWhile isWhiteSpace s @ [c]"
    by (rule dropWhile_append1)
  then show ?thesis using assms by (simp add: trim_def)
qed


lemma split_not_Nil: "split c s \<noteq> []"
  by (induction s) (auto split: list.splits)

lemma split_no_sep: "c \<notin> set a \<Longrightarrow> split c a = [a]"
  by (induction a) auto

lemma split_append_sep: "c \<notin> set a \<Longrightarrow> split c (a @ c # b) = a # split c b"
  by (induction a) auto

lemma length_split: "length (split c s) = Suc (count_list s c)"
  by (induction s) (auto split: list.splits simp: split_not_Nil)

section \<open>Properties of the tokenizer and of one row\<close>

lemma scan_append: "scan (a @ b) = foldl scanChar (scan a) b"
  by (simp add: scan_def)




lemma tokenize_Nil: "tokenize [] = [[]]"
  by (simp add: tokenize_def scan_def scanStart_def trim_Nil)

lemma stripQuotes_id: "CHR 0x22 \<notin> set s \<Longrightarrow> stripQuotes s = s"
  by (auto simp: stripQuotes_def filter_id_conv)

lemma parseEbirdDate_no_error: "parseEbirdDate s \<noteq> Inl e"
  by (auto simp: parseEbirdDate_def Let_def at_def split: jsval.splits)



lemma parseRow_short: "length (tokenize (trim raw)) < 9 \<Longrightarrow> parseRow raw = Inr None"
  by (simp add: parseRow_def Let_def)

lemma parseRow_no_error: "parseRow raw \<noteq> Inl e"
  using parseEbirdDate_no_error
  by (auto simp: parseRow_def Let_def at_def split: sum.splits option.splits)

section \<open>Properties of the row loop, the sort and the line split\<close>

lemma rowsLoop_eq: "rowsLoop ls obs = Inr (obs @ concat (map rowObservations ls))"
proof (induction ls arbitrary: obs)
  case Nil
  then show ?case by simp
next
  case (Cons l ls)
  show ?case
  proof (cases "parseRow l")
    case (Inl e)
    then show ?thesis using parseRow_no_error by blast
  next
    case (Inr r)
    then show ?thesis
      by (cases r) (simp_all add: Cons.IH rowObservations_def)
  qed
qed

lemma mset_insertBy: "mset (insertBy cmp x ys) = add_mset x (mset ys)"
  by (induction ys) auto

lemma mset_arraySort: "mset (arraySort cmp xs) = mset xs"
  unfolding arraySort_def by (induction xs) (auto simp: mset_insertBy)

lemma parseCSV_eq:
  "parseCSV impl txt =
     Inr (arraySort (compareFn impl) (concat (map rowObservations (drop 1 (split CHR 0x0A txt)))))"
  by (simp add: parseCSV_def Let_def rowsLoop_eq)


lemma toCRLF_Cons:
  "toCRLF (x # s) = (if x = CHR 0x0A then CHR 0x0D # CHR 0x0A # toCRLF s else x # toCRLF s)"
  by (simp add: toCRLF_def)

lemma split_toCRLF:
  "split CHR 0x0A (toCRLF s) =
     map (\<lambda>l. l @ [CHR 0x0D]) (butlast (split CHR 0x0A s)) @ [last (split CHR 0x0A s)]"
proof (induction s)
  case Nil
  then show ?case by (simp add: toCRLF_def)
next
  case (Cons x s)
  obtain p ps where ps: "split CHR 0x0A s = p # ps"
    using split_not_Nil [of "CHR 0x0A" s] by (cases "split CHR 0x0A s") auto
  show ?case
  proof (cases "x = CHR 0x0A")
    case True
    then show ?thesis using Cons.IH ps by (cases ps) (simp_all add: toCRLF_Cons)
  next
    case False
    then show ?thesis using Cons.IH ps by (cases ps) (simp_all add: toCRLF_Cons)
  qed
qed

lemma isWhiteSpace_CR: "isWhiteSpace (CHR 0x0D)"
  by (simp add: isWhiteSpace_def)

lemma parseRow_CR: "parseRow (l @ [CHR 0x0D]) = parseRow l"
  by (simp add: parseRow_def trim_snoc_ws isWhiteSpace_CR)

lemma rowObservations_CR: "rowObservations (l @ [CHR 0x0D]) = rowObservations l"
  by (simp add: rowObservations_def parseRow_CR)

lemma rowObservations_trim: "rowObservations (trim l) = rowObservations l"
  by (simp add: rowObservations_def parseRow_def trim_idem)

lemma foldl_scanChar_inQuotes:
  "inQuotes (foldl scanChar st l) =
     (if even (count_list l (CHR 0x22)) then inQuotes st else \<not> inQuotes st)"
  by (induction l arbitrary: st) (auto simp: scanChar_def)

lemma foldl_scanChar_quoted:
  "inQuotes st \<Longrightarrow> CHR 0x22 \<notin> set post \<Longrightarrow>
   foldl scanChar st post = st\<lparr>current := current st @ post\<rparr>"
  by (induction post arbitrary: st) (auto simp: scanChar_def)

lemma count_list_ws_zero:
  "\<forall>x\<in>set w. isWhiteSpace x \<Longrightarrow> \<not> isWhiteSpace c \<Longrightarrow> count_list w c = 0"
  by (induction w) auto

lemma count_list_trim:
  assumes "\<not> isWhiteSpace c"
  shows "count_list (trim s) c = count_list s c"
proof -
  from trim_decompose [of s] show ?thesis
  proof
    assume "trim s = [] \<and> (\<forall>c\<in>set s. isWhiteSpace c)"
    then show ?thesis using assms by (simp add: count_list_ws_zero)
  next
    assume "\<exists>w1 w2. s = w1 @ trim s @ w2 \<and> (\<forall>c\<in>set w1. isWhiteSpace c) \<and> (\<forall>c\<in>set w2. isWhiteSpace c) \<and>
       trim s \<noteq> [] \<and> \<not> isWhiteSpace (hd (trim s)) \<and> \<not> isWhiteSpace (last (trim s))"
    then obtain w1 w2 where s: "s = w1 @ trim s @ w2"
      and w: "\<forall>c\<in>set w1. isWhiteSpace c" "\<forall>c\<in>set w2. isWhiteSpace c" by blast
    have "count_list s c = count_list (w1 @ trim s @ w2) c" using s by simp
    also have "\<dots> = count_list (trim s) c"
      using w assms by (simp add: count_list_ws_zero)
    finally show ?thesis by simp
  qed
qed

lemma tokenize_unterminated:
  assumes line: "line = pre @ CHR 0x22 # post"
    and post: "CHR 0x22 \<notin> set post"
    and odd: "odd (count_list line (CHR 0x22))"
  shows "tokenize line = columns (scan pre) @ [trim (current (scan pre) @ post)]"
proof -
  have "count_list post (CHR 0x22) = 0" using post by (simp add: count_list_0_iff)
  then have ev: "even (count_list pre (CHR 0x22))" using odd line by simp
  then have nq: "\<not> inQuotes (scan pre)"
    by (simp add: scan_def foldl_scanChar_inQuotes scanStart_def)
  define st where "st = scanChar (scan pre) (CHR 0x22)"
  have st: "st = (scan pre)\<lparr>inQuotes := True\<rparr>" using nq by (simp add: st_def scanChar_def)
  have "scan line = foldl scanChar st post"
    by (simp add: line scan_append st_def)
  also have "\<dots> = st\<lparr>current := current st @ post\<rparr>"
    using post by (intro foldl_scanChar_quoted) (simp_all add: st)
  finally show ?thesis by (simp add: tokenize_def st)
qed

lemma drop_map_CR:
  assumes "xs \<noteq> []"
  shows "concat (map rowObservations (drop 1 (map (\<lambda>l. l @ [CHR 0x0D]) (butlast xs) @ [last xs]))) =
         concat (map rowObservations (drop 1 xs))"
proof -
  have "map rowObservations (map (\<lambda>l. l @ [CHR 0x0D]) (butlast xs) @ [last xs]) =
        map rowObservations (butlast xs @ [last xs])"
    by (simp add: rowObservations_CR)
  also have "\<dots> = map rowObservations xs" using assms by simp
  finally have "drop 1 (map rowObservations (map (\<lambda>l. l @ [CHR 0x0D]) (butlast xs) @ [last xs])) =
        drop 1 (map rowObservations xs)" by simp
  then show ?thesis by (simp only: drop_map)
qed

lemma parseCSV_toCRLF: "parseCSV impl (toCRLF txt) = parseCSV impl txt"
  by (simp only: parseCSV_eq split_toCRLF drop_map_CR [OF split_not_Nil])

lemma parseCSV_header:
  assumes "CHR 0x0A \<notin> set h"
  shows "parseCSV impl h = Inr []"
    and "parseCSV impl (h @ CHR 0x0A # rest) =
         Inr (arraySort (compareFn impl) (concat (map rowObservations (split CHR 0x0A rest))))"
  using assms by (simp_all add: parseCSV_eq split_no_sep split_append_sep arraySort_def)

section \<open>Claims about one row\<close>

text \<open>
  In a row without double quotes the fields are the trimmed pieces between the commas.
\<close>

lemma foldl_scanChar_no_quotes:
  assumes "CHR 0x22 \<notin> set line" "\<not> inQuotes st" "split CHR '','' line = p # ps"
  shows "columns (foldl scanChar st line) @ [trim (current (foldl scanChar st line))] =
         columns st @ trim (current st @ p) # map trim ps"
  using assms
proof (induction line arbitrary: st p ps)
  case Nil
  then show ?case by simp
next
  case (Cons ch line)
  obtain q qs where q: "split CHR '','' line = q # qs"
    using split_not_Nil [of "CHR '',''" line] by (cases "split CHR '','' line") auto
  have nq: "CHR 0x22 \<notin> set line" "ch \<noteq> CHR 0x22" using Cons.prems(1) by auto
  show ?case
  proof (cases "ch = CHR '',''")
    case True
    have st': "\<not> inQuotes (scanChar st ch)" using Cons.prems(2) nq(2) by (simp add: scanChar_def)
    have pp: "p = []" "ps = q # qs" using Cons.prems(3) True q by auto
    from Cons.IH [OF nq(1) st' q] show ?thesis
      using True Cons.prems(2) pp by (simp add: scanChar_def)
  next
    case False
    have st': "\<not> inQuotes (scanChar st ch)" using Cons.prems(2) nq(2) by (simp add: scanChar_def)
    have pp: "p = ch # q" "ps = qs" using Cons.prems(3) False q by auto
    from Cons.IH [OF nq(1) st' q] show ?thesis
      using False nq(2) pp by (simp add: scanChar_def)
  qed
qed

lemma tokenize_no_quotes:
  assumes "CHR 0x22 \<notin> set line"
  shows "tokenize line = map trim (split CHR '','' line)"
proof -
  obtain p ps where p: "split CHR '','' line = p # ps"
    using split_not_Nil [of "CHR '',''" line] by (cases "split CHR '','' line") auto
  have "\<not> inQuotes scanStart" by (simp add: scanStart_def)
  from foldl_scanChar_no_quotes [OF assms this p] show ?thesis
    by (simp add: tokenize_def scan_def p scanStart_def)
qed



text \<open>
  C6: a raw row whose trimmed text tokenizes into fewer than 9 fields pushes nothing:
  the row contributes no observation.
\<close>

theorem parseRow_short_row_absent:
  assumes "length (tokenize (trim raw)) < 9"
  shows "parseRow raw = Inr None \<and> rowObservations raw = []"
  using parseRow_short [OF assms] by (simp add: rowObservations_def)

theorem parseRow_short_row_absent_witness:
  "length (tokenize (trim ''1,2,3,Robin,4,5,Forest,US-NY'')) < 9 \<and>
   parseRow ''1,2,3,Robin,4,5,Forest,US-NY'' = Inr None \<and>
   rowObservations ''1,2,3,Robin,4,5,Forest,US-NY'' = []"
proof -
  have len: "length (tokenize (trim ''1,2,3,Robin,4,5,Forest,US-NY'')) < 9" by code_simp
  from parseRow_short_row_absent [OF len] len show ?thesis by simp
qed

section \<open>Claims about the whole text\<close>

text \<open>
  C5: for every input text, \<open>run\<close> returns an output document and never raises; the
  document carries the two clock readings and, up to the order chosen by the sort, exactly
  the observations of the rows after the first that parse: a row that is malformed or
  whose date does not normalize contributes nothing and does not stop the rows after it.
\<close>

theorem run_never_raises:
  "\<exists>env. run impl t1 t2 txt = Inr env \<and>
         lastSync (profile env) = t1 \<and> exportedAt env = t2 \<and>
         mset (observations env) =
           mset (concat (map rowObservations (drop 1 (split CHR 0x0A txt))))"
proof -
  let ?pushed = "concat (map rowObservations (drop 1 (split CHR 0x0A txt)))"
  have loop: "rowsLoop (drop 1 (split CHR 0x0A txt)) [] = Inr ?pushed"
    by (simp add: rowsLoop_eq)
  then have parsed: "parseCSV impl txt = Inr (arraySort (compareFn impl) ?pushed)"
    by (simp add: parseCSV_def)
  have "mset (arraySort (compareFn impl) ?pushed) = mset ?pushed"
    by (rule mset_arraySort)
  then show ?thesis using parsed by (simp add: run_def)
qed

theorem run_never_raises_witness:
  "\<exists>env. run (\<lambda>s. None) ''T1'' ''T2''
             (''header'' @ [CHR 0x0A] @ ''x,y'' @ [CHR 0x0A] @ ''1,2,3,A,a,5,L,R,05 Xyz 2020''
                @ [CHR 0x0A] @ ''1,2,3,B,b,5,M,S,2 Nov 2021'') = Inr env \<and>
         lastSync (profile env) = ''T1'' \<and> exportedAt env = ''T2'' \<and>
         mset (observations env) =
           {#\<lparr>date = ''2021-11-02'', sciName = Str ''b'', common = Str ''B'',
              location = ''M'', region = Str ''S''\<rparr>#}"
proof -
  let ?txt = "''header'' @ [CHR 0x0A] @ ''x,y'' @ [CHR 0x0A] @ ''1,2,3,A,a,5,L,R,05 Xyz 2020''
                @ [CHR 0x0A] @ ''1,2,3,B,b,5,M,S,2 Nov 2021''"
  have rows: "concat (map rowObservations (drop 1 (split CHR 0x0A ?txt))) =
      [\<lparr>date = ''2021-11-02'', sciName = Str ''b'', common = Str ''B'',
        location = ''M'', region = Str ''S''\<rparr>]"
    by code_simp
  from run_never_raises [of "\<lambda>s. None" "''T1''" "''T2''" ?txt] show ?thesis
    unfolding rows by simp
qed



text \<open>
  C8: the first row never contributes an observation: whatever the header row \<open>h\<close> is,
  the result is the sorted observations of the rows after it, and a text that is only a
  header row (with or without its line break) gives the empty sequence.
\<close>

theorem header_row_skipped:
  assumes "CHR 0x0A \<notin> set h"
  shows "parseCSV impl h = Inr [] \<and>
         parseCSV impl (h @ [CHR 0x0A]) = Inr [] \<and>
         parseCSV impl (h @ CHR 0x0A # rest) =
           Inr (arraySort (compareFn impl) (concat (map rowObservations (split CHR 0x0A rest))))"
proof -
  have "rowObservations [] = []" by (simp add: rowObservations_def parseRow_def trim_Nil)
  then have "parseCSV impl (h @ [CHR 0x0A]) = Inr []"
    using parseCSV_header(2) [OF assms, of impl "[]"] by (simp add: arraySort_def)
  then show ?thesis using parseCSV_header [OF assms] by simp
qed

theorem header_row_skipped_witness:
  "parseCSV (\<lambda>s. None) ''1,2,3,A,a,5,L,R,10 May 2023'' = Inr [] \<and>
   parseCSV (\<lambda>s. None) (''1,2,3,A,a,5,L,R,10 May 2023'' @ [CHR 0x0A]) = Inr [] \<and>
   parseCSV (\<lambda>s. None) (''1,2,3,A,a,5,L,R,10 May 2023'' @ CHR 0x0A # ''1,2,3,B,b,5,M,S,2 Nov 2021'') =
     Inr [\<lparr>date = ''2021-11-02'', sciName = Str ''b'', common = Str ''B'',
           location = ''M'', region = Str ''S''\<rparr>]"
proof -
  have h: "CHR 0x0A \<notin> set ''1,2,3,A,a,5,L,R,10 May 2023''" by simp
  have r: "arraySort (compareFn (\<lambda>s. None))
             (concat (map rowObservations (split CHR 0x0A ''1,2,3,B,b,5,M,S,2 Nov 2021''))) =
           [\<lparr>date = ''2021-11-02'', sciName = Str ''b'', common = Str ''B'',
             location = ''M'', region = Str ''S''\<rparr>]"
    by code_simp
  from header_row_skipped [OF h, of "\<lambda>s. None" "''1,2,3,B,b,5,M,S,2 Nov 2021''"]
  show ?thesis unfolding r by simp
qed

text \<open>
  C9: in a row with an odd number of double quotes, nothing after the last quote is a
  separator: the fields are those completed before that quote, followed by one last field
  made of the text pending at the quote and the whole remainder of the row (trimmed, as
  every field is), so every comma of the remainder is a character of the last field.
\<close>

theorem unterminated_quote_swallows_commas:
  assumes "line = pre @ CHR 0x22 # post"
    and "CHR 0x22 \<notin> set post"
    and "odd (count_list line (CHR 0x22))"
  shows "tokenize line = columns (scan pre) @ [trim (current (scan pre) @ post)] \<and>
         length (tokenize line) = length (tokenize pre) \<and>
         count_list (last (tokenize line)) (CHR '','') =
           count_list (current (scan pre)) (CHR '','') + count_list post (CHR '','')"
proof -
  have t: "tokenize line = columns (scan pre) @ [trim (current (scan pre) @ post)]"
    using assms by (rule tokenize_unterminated)
  have "\<not> isWhiteSpace (CHR '','')" by (simp add: isWhiteSpace_def)
  then have c: "count_list (trim (current (scan pre) @ post)) (CHR '','') =
             count_list (current (scan pre) @ post) (CHR '','')"
    by (rule count_list_trim)
  have p: "length (tokenize pre) = Suc (length (columns (scan pre)))"
    by (simp add: tokenize_def Let_def)
  show ?thesis unfolding t p by (simp add: c)
qed

theorem unterminated_quote_swallows_commas_witness:
  \<open>tokenize ''a,b"c,"d,"e,f,g'' = [''a'', ''bc,d'', ''e,f,g'']\<close>
proof -
  have l: \<open>''a,b"c,"d,"e,f,g'' = ''a,b"c,"d,'' @ CHR 0x22 # ''e,f,g''\<close> by simp
  have p: "CHR 0x22 \<notin> set ''e,f,g''" by simp
  have od: \<open>odd (count_list ''a,b"c,"d,"e,f,g'' (CHR 0x22))\<close> by code_simp
  have c: \<open>columns (scan ''a,b"c,"d,'') = [''a'', ''bc,d'']\<close> by code_simp
  have u: \<open>trim (current (scan ''a,b"c,"d,'') @ ''e,f,g'') = ''e,f,g''\<close> by code_simp
  from unterminated_quote_swallows_commas [OF l p od] show ?thesis
    unfolding c u by simp
qed

text \<open>
  C10: a text gives the same observations with CRLF line endings as with LF line endings:
  the rows are split at LF only and the carriage return left at the end of a row is
  removed by the trim of the row.
\<close>

theorem crlf_same_observations:
  "parseCSV impl (toCRLF txt) = parseCSV impl txt \<and>
   split CHR 0x0A (toCRLF txt) =
     map (\<lambda>l. l @ [CHR 0x0D]) (butlast (split CHR 0x0A txt)) @ [last (split CHR 0x0A txt)] \<and>
   parseRow (l @ [CHR 0x0D]) = parseRow l"
proof (intro conjI)
  show "parseCSV impl (toCRLF txt) = parseCSV impl txt"
    by (rule parseCSV_toCRLF)
  show "split CHR 0x0A (toCRLF txt) =
     map (\<lambda>l. l @ [CHR 0x0D]) (butlast (split CHR 0x0A txt)) @ [last (split CHR 0x0A txt)]"
    by (rule split_toCRLF)
  show "parseRow (l @ [CHR 0x0D]) = parseRow l"
    by (rule parseRow_CR)
qed

theorem crlf_same_observations_witness:
  "parseCSV (\<lambda>s. None) (''header'' @ [CHR 0x0D, CHR 0x0A] @ ''1,2,3,B,b,5,M,S,2 Nov 2021'' @ [CHR 0x0D, CHR 0x0A]) =
   Inr [\<lparr>date = ''2021-11-02'', sciName = Str ''b'', common = Str ''B'',
           location = ''M'', region = Str ''S''\<rparr>]"
proof -
  let ?lf = "''header'' @ [CHR 0x0A] @ ''1,2,3,B,b,5,M,S,2 Nov 2021'' @ [CHR 0x0A]"
  have c: "toCRLF ?lf = ''header'' @ [CHR 0x0D, CHR 0x0A] @ ''1,2,3,B,b,5,M,S,2 Nov 2021'' @ [CHR 0x0D, CHR 0x0A]"
    by code_simp
  have r: "parseCSV (\<lambda>s. None) ?lf =
     Inr [\<lparr>date = ''2021-11-02'', sciName = Str ''b'', common = Str ''B'',
           location = ''M'', region = Str ''S''\<rparr>]"
    by code_simp
  from crlf_same_observations [of "\<lambda>s. None" ?lf] show ?thesis
    unfolding c r by simp
qed

section \<open>Claims about parseEbirdDate\<close>

lemma split3:
  assumes "CHR '' '' \<notin> set d" "CHR '' '' \<notin> set m" "CHR '' '' \<notin> set y"
  shows "split CHR '' '' (d @ '' '' @ m @ '' '' @ y) = [d, m, y]"
  using assms by (simp add: split_append_sep split_no_sep)

lemma distinct_months: "distinct (map fst months)"
  by (simp add: months_def)

lemma months_lookup:
  assumes "(m, mm) \<in> set months"
  shows "map_of months m = Some mm \<and> mm \<noteq> []"
proof
  show "map_of months m = Some mm"
    using distinct_months assms by (rule map_of_is_SomeI)
  have "\<forall>p\<in>set months. snd p \<noteq> []" by (simp add: months_def)
  then show "mm \<noteq> []" using assms by fastforce
qed

lemma getProp_unknown:
  assumes "m \<notin> fst ` set months" "m \<notin> fst ` set objectPrototypeFunctions" "m \<noteq> ''__proto__''"
  shows "getProp months m = Undefined"
proof -
  have "map_of months m = None" using assms(1) by (simp add: map_of_eq_None_iff)
  moreover have "map_of objectPrototypeFunctions m = None"
    using assms(2) by (simp add: map_of_eq_None_iff)
  ultimately show ?thesis using assms(3) by (simp add: getProp_def)
qed

lemma parseEbirdDate_parts:
  assumes "split CHR '' '' (trim s) = [d, m, y]"
  shows "parseEbirdDate s =
           (if truthy (getProp months m)
            then Inr (Some (y @ ''-'' @ toString (getProp months m) @ ''-'' @ padStart 2 CHR ''0'' d))
            else Inr None)"
  using assms by (simp add: parseEbirdDate_def at_def)

lemma parseEbirdDate_other_length:
  assumes "count_list (trim s) (CHR '' '') \<noteq> 2"
  shows "parseEbirdDate s = Inr None"
proof -
  have "length (split CHR '' '' (trim s)) \<noteq> 3"
    using assms by (simp add: length_split)
  then show ?thesis by (simp add: parseEbirdDate_def)
qed

text \<open>
  The table lookup \<open>months[parts[1]]\<close> also finds the properties that the object literal
  inherits from \<open>Object.prototype\<close>; they are truthy, so such a second part is not rejected.
\<close>

lemma parseEbirdDate_inherited_property:
  "parseEbirdDate ''14 constructor 2025'' =
     Inr (Some ''2025-function Object() { [native code] }-14'')"
  by code_simp

text \<open>
  C2 (as amended): the parts of the date text are what is left between single space
  characters after trimming. When the trimmed text is three such parts and the second is
  a key of the month table, the result is year, month number and day (padded with a
  zero to two characters) joined by hyphens, the year unchanged; when the second part is
  neither a key of the table nor the name of a property inherited from
  \<open>Object.prototype\<close>, the result is null; when the trimmed text does not hold exactly
  two space characters (so it is not three parts), the result is null.
\<close>

theorem parseEbirdDate_single_space_parts:
  "(trim s = d @ '' '' @ m @ '' '' @ y \<and>
      CHR '' '' \<notin> set d \<and> CHR '' '' \<notin> set m \<and> CHR '' '' \<notin> set y \<longrightarrow>
      ((m, mm) \<in> set months \<longrightarrow>
         parseEbirdDate s = Inr (Some (y @ ''-'' @ mm @ ''-'' @ padStart 2 CHR ''0'' d))) \<and>
      (m \<notin> fst ` set months \<and> m \<notin> fst ` set objectPrototypeFunctions \<and> m \<noteq> ''__proto__'' \<longrightarrow>
         parseEbirdDate s = Inr None)) \<and>
   (count_list (trim s) (CHR '' '') \<noteq> 2 \<longrightarrow> parseEbirdDate s = Inr None)"
proof (intro conjI impI)
  assume "count_list (trim s) (CHR '' '') \<noteq> 2"
  then show "parseEbirdDate s = Inr None" by (rule parseEbirdDate_other_length)
next
  assume a: "trim s = d @ '' '' @ m @ '' '' @ y \<and>
      CHR '' '' \<notin> set d \<and> CHR '' '' \<notin> set m \<and> CHR '' '' \<notin> set y"
  then have p: "split CHR '' '' (trim s) = [d, m, y]" using split3 [of d m y] by simp
  {
    assume "(m, mm) \<in> set months"
    then have "getProp months m = Str mm" "mm \<noteq> []"
      using months_lookup [of m mm] by (simp_all add: getProp_def)
    then show "parseEbirdDate s = Inr (Some (y @ ''-'' @ mm @ ''-'' @ padStart 2 CHR ''0'' d))"
      by (simp add: parseEbirdDate_parts [OF p])
  next
    assume "m \<notin> fst ` set months \<and> m \<notin> fst ` set objectPrototypeFunctions \<and> m \<noteq> ''__proto__''"
    then have "getProp months m = Undefined" by (intro getProp_unknown) simp_all
    then show "parseEbirdDate s = Inr None"
      by (simp add: parseEbirdDate_parts [OF p])
  }
qed

theorem parseEbirdDate_single_space_parts_witness:
  "parseEbirdDate '' 4 Dec 2025 '' = Inr (Some ''2025-12-04'') \<and>
   parseEbirdDate ''05 Xyz 2020'' = Inr None \<and>
   parseEbirdDate ''14 Dec'' = Inr None"
proof -
  have t1: "trim '' 4 Dec 2025 '' = ''4'' @ '' '' @ ''Dec'' @ '' '' @ ''2025''" by code_simp
  have m1: "(''Dec'', ''12'') \<in> set months" by (simp add: months_def)
  have p1: "padStart 2 CHR ''0'' ''4'' = ''04''" by code_simp
  have a: "parseEbirdDate '' 4 Dec 2025 '' = Inr (Some ''2025-12-04'')"
    using parseEbirdDate_single_space_parts [of "'' 4 Dec 2025 ''" "''4''" "''Dec''" "''2025''" "''12''"]
      t1 m1 p1 by simp
  have t2: "trim ''05 Xyz 2020'' = ''05'' @ '' '' @ ''Xyz'' @ '' '' @ ''2020''" by code_simp
  have m2: "''Xyz'' \<notin> fst ` set months" "''Xyz'' \<notin> fst ` set objectPrototypeFunctions"
    by (simp_all add: months_def objectPrototypeFunctions_def)
  have b: "parseEbirdDate ''05 Xyz 2020'' = Inr None"
    using parseEbirdDate_single_space_parts [of "''05 Xyz 2020''" "''05''" "''Xyz''" "''2020''" "''12''"]
      t2 m2 by simp
  have t3: "count_list (trim ''14 Dec'') (CHR '' '') \<noteq> 2" by code_simp
  have c: "parseEbirdDate ''14 Dec'' = Inr None"
    using parseEbirdDate_single_space_parts [of "''14 Dec''" "[]" "[]" "[]" "[]"] t3 by blast
  from a b c show ?thesis by simp
qed

text \<open>
  C2 as stated fails: a text of three whitespace-separated tokens, the second a key of
  the table, is rejected when two spaces separate the first two tokens.
\<close>

theorem parseEbirdDate_whitespace_tokens_counterexample:
  "whitespaceTokens ''14  Dec 2025'' = [''14'', ''Dec'', ''2025''] \<and>
   (''Dec'', ''12'') \<in> set months \<and>
   parseEbirdDate ''14  Dec 2025'' = Inr None"
  by code_simp

section \<open>Claims about the dates of the output\<close>

lemma months_values:
  assumes "(m, mm) \<in> set months"
  shows "\<exists>a b. mm = [a, b] \<and> isDigit a \<and> isDigit b \<and> 1 \<le> number [a, b] \<and> number [a, b] \<le> 12"
proof -
  have "\<forall>p\<in>set months. \<exists>a b. snd p = [a, b] \<and> isDigit a \<and> isDigit b \<and> 1 \<le> number [a, b] \<and> number [a, b] \<le> 12"
    by (simp add: months_def isDigit_def digitVal_def)
  then show ?thesis using assms by fastforce
qed

lemma number_padStart:
  assumes "length d = 1 \<or> length d = 2"
  shows "\<exists>a b. padStart 2 CHR ''0'' d = [a, b] \<and> number [a, b] = number d \<and>
               (list_all isDigit d \<longrightarrow> isDigit a \<and> isDigit b)"
proof -
  from assms consider a where "d = [a]" | a b where "d = [a, b]"
    by (cases d rule: list.exhaust; cases "tl d"; cases "tl (tl d)") auto
  then show ?thesis
    by cases (simp_all add: padStart_def isDigit_def digitVal_def)
qed

lemma iso_of_parts:
  assumes y: "isYearText y" and m: "(m, mm) \<in> set months" and d: "isDayText y mm d"
  shows "isIsoDate (y @ ''-'' @ mm @ ''-'' @ padStart 2 CHR ''0'' d)"
proof -
  obtain y1 y2 y3 y4 where yy: "y = [y1, y2, y3, y4]"
    using y unfolding isYearText_def
    by (cases y; cases "tl y"; cases "tl (tl y)"; cases "tl (tl (tl y))"; cases "tl (tl (tl (tl y)))") auto
  obtain m1 m2 where mm: "mm = [m1, m2]" "isDigit m1" "isDigit m2" "1 \<le> number [m1, m2]" "number [m1, m2] \<le> 12"
    using months_values [OF m] by blast
  obtain d1 d2 where dd: "padStart 2 CHR ''0'' d = [d1, d2]" "number [d1, d2] = number d" "isDigit d1" "isDigit d2"
    using number_padStart [of d] d unfolding isDayText_def by blast
  have yd: "isDigit y1" "isDigit y2" "isDigit y3" "isDigit y4"
    using y by (simp_all add: isYearText_def yy)
  have "isoDateOnly (y @ ''-'' @ mm @ ''-'' @ padStart 2 CHR ''0'' d) =
        Some (number y, number mm, number d)"
    using yd mm(2,3) dd(3,4) unfolding dd(1) dd(2) [symmetric] by (simp add: yy mm(1))
  then show ?thesis
    using d mm(4,5) by (simp add: isIsoDate_def isDayText_def mm(1))
qed

lemma parseRow_Some:
  assumes "parseRow l = Inr (Some ob)"
  shows "9 \<le> length (tokenize (trim l)) \<and>
         parseEbirdDate (tokenize (trim l) ! 8) = Inr (Some (date ob))"
  using assms
  by (auto simp: parseRow_def Let_def at_def split: if_splits sum.splits option.splits)

lemma set_arraySort: "set (arraySort cmp xs) = set xs"
  using mset_arraySort [of cmp xs] by (metis set_mset_mset)

lemma in_rowObservations: "ob \<in> set (rowObservations l) \<Longrightarrow> parseRow l = Inr (Some ob)"
  by (auto simp: rowObservations_def split: sum.splits option.splits)

lemma parseCSV_member:
  assumes "parseCSV impl txt = Inr obs" "ob \<in> set obs"
  shows "\<exists>l\<in>set (drop 1 (split CHR 0x0A txt)). parseRow l = Inr (Some ob)"
proof -
  have "ob \<in> set (concat (map rowObservations (drop 1 (split CHR 0x0A txt))))"
    using assms by (auto simp: parseCSV_eq set_arraySort)
  then show ?thesis by (auto dest: in_rowObservations)
qed


text \<open>
  C3 (as amended): every observation of the output comes from a row after the first
  that has at least 9 fields, and its date is the text that \<open>parseEbirdDate\<close> returns
  for field 8 of that row; a row whose field 8 does not normalize constructs no record.
  That date is a valid 10-character ISO date \<open>YYYY-MM-DD\<close> when field 8, trimmed, is a
  day part, a key of the month table and a year part separated by single spaces, the
  year part being four digits and the day part one or two digits that name a day of that
  month; the parts are not validated, so other day and year parts give other texts.
\<close>

theorem observation_dates_normalized:
  assumes "parseCSV impl txt = Inr obs" and "ob \<in> set obs"
  shows "(\<exists>l\<in>set (drop 1 (split CHR 0x0A txt)).
            9 \<le> length (tokenize (trim l)) \<and>
            parseRow l = Inr (Some ob) \<and>
            parseEbirdDate (tokenize (trim l) ! 8) = Inr (Some (date ob)) \<and>
            (\<forall>d m mm y.
               trim (tokenize (trim l) ! 8) = d @ '' '' @ m @ '' '' @ y \<and>
               CHR '' '' \<notin> set d \<and> CHR '' '' \<notin> set y \<and>
               (m, mm) \<in> set months \<and> isYearText y \<and> isDayText y mm d \<longrightarrow>
               isIsoDate (date ob) \<and> length (date ob) = 10)) \<and>
         (9 \<le> length (tokenize (trim r)) \<and>
            parseEbirdDate (tokenize (trim r) ! 8) = Inr None \<longrightarrow> rowObservations r = [])"
proof
  obtain l where l: "l \<in> set (drop 1 (split CHR 0x0A txt))" "parseRow l = Inr (Some ob)"
    using parseCSV_member [OF assms] by blast
  let ?c8 = "tokenize (trim l) ! 8"
  have p: "9 \<le> length (tokenize (trim l))" "parseEbirdDate ?c8 = Inr (Some (date ob))"
    using parseRow_Some [OF l(2)] by simp_all
  have iso: "isIsoDate (date ob) \<and> length (date ob) = 10"
    if h: "trim ?c8 = d @ '' '' @ m @ '' '' @ y \<and> CHR '' '' \<notin> set d \<and> CHR '' '' \<notin> set y \<and>
        (m, mm) \<in> set months \<and> isYearText y \<and> isDayText y mm d" for d m mm y
  proof -
    have "CHR '' '' \<notin> set m" using h by (auto simp: months_def)
    then have s: "split CHR '' '' (trim ?c8) = [d, m, y]" using h split3 [of d m y] by simp
    have "getProp months m = Str mm" "mm \<noteq> []"
      using months_lookup [of m mm] h by (simp_all add: getProp_def)
    then have "parseEbirdDate ?c8 = Inr (Some (y @ ''-'' @ mm @ ''-'' @ padStart 2 CHR ''0'' d))"
      by (simp add: parseEbirdDate_parts [OF s])
    then have e: "date ob = y @ ''-'' @ mm @ ''-'' @ padStart 2 CHR ''0'' d" using p(2) by simp
    have i: "isIsoDate (date ob)" unfolding e using h by (intro iso_of_parts [of y m mm d]) simp_all
    then have "length (date ob) = 10"
      by (cases "date ob" rule: isoDateOnly.cases) (simp_all add: isIsoDate_def)
    with i show ?thesis by simp
  qed
  show "\<exists>l\<in>set (drop 1 (split CHR 0x0A txt)).
            9 \<le> length (tokenize (trim l)) \<and>
            parseRow l = Inr (Some ob) \<and>
            parseEbirdDate (tokenize (trim l) ! 8) = Inr (Some (date ob)) \<and>
            (\<forall>d m mm y.
               trim (tokenize (trim l) ! 8) = d @ '' '' @ m @ '' '' @ y \<and>
               CHR '' '' \<notin> set d \<and> CHR '' '' \<notin> set y \<and>
               (m, mm) \<in> set months \<and> isYearText y \<and> isDayText y mm d \<longrightarrow>
               isIsoDate (date ob) \<and> length (date ob) = 10)"
    using l p iso by blast
  show "9 \<le> length (tokenize (trim r)) \<and>
            parseEbirdDate (tokenize (trim r) ! 8) = Inr None \<longrightarrow> rowObservations r = []"
    by (auto simp: rowObservations_def parseRow_def Let_def at_def tokenize_Nil)
qed


theorem observation_dates_normalized_witness:
  "parseCSV (\<lambda>s. None) (''header'' @ [CHR 0x0A] @ ''1,2,3,B,b,5,M,S,2 Nov 2021'') =
     Inr [\<lparr>date = ''2021-11-02'', sciName = Str ''b'', common = Str ''B'',
           location = ''M'', region = Str ''S''\<rparr>] \<and>
   isIsoDate ''2021-11-02'' \<and> length ''2021-11-02'' = 10 \<and>
   rowObservations ''1,2,3,A,a,5,L,R,05 Xyz 2020'' = []"
proof -
  let ?txt = "''header'' @ [CHR 0x0A] @ ''1,2,3,B,b,5,M,S,2 Nov 2021''"
  let ?ob = "\<lparr>date = ''2021-11-02'', sciName = Str ''b'', common = Str ''B'',
           location = ''M'', region = Str ''S''\<rparr>"
  let ?r = "''1,2,3,A,a,5,L,R,05 Xyz 2020''"
  have pc: "parseCSV (\<lambda>s. None) ?txt = Inr [?ob]" by code_simp
  have mem: "?ob \<in> set [?ob]" by simp
  have rows: "drop 1 (split CHR 0x0A ?txt) = [''1,2,3,B,b,5,M,S,2 Nov 2021'']" by code_simp
  have c8: "trim (tokenize (trim ''1,2,3,B,b,5,M,S,2 Nov 2021'') ! 8) =
            ''2'' @ '' '' @ ''Nov'' @ '' '' @ ''2021''" by code_simp
  have side: "CHR '' '' \<notin> set ''2''" "CHR '' '' \<notin> set ''2021''" "(''Nov'', ''11'') \<in> set months"
    "isYearText ''2021''" "isDayText ''2021'' ''11'' ''2''"
    by code_simp+
  have r: "9 \<le> length (tokenize (trim ?r)) \<and> parseEbirdDate (tokenize (trim ?r) ! 8) = Inr None"
    by code_simp
  note t = observation_dates_normalized [OF pc mem, of ?r]
  from t r have r0: "rowObservations ?r = []" by blast
  from t obtain l where l: "l \<in> set (drop 1 (split CHR 0x0A ?txt))"
    and iso: "\<forall>d m mm y.
               trim (tokenize (trim l) ! 8) = d @ '' '' @ m @ '' '' @ y \<and>
               CHR '' '' \<notin> set d \<and> CHR '' '' \<notin> set y \<and>
               (m, mm) \<in> set months \<and> isYearText y \<and> isDayText y mm d \<longrightarrow>
               isIsoDate (date ?ob) \<and> length (date ?ob) = 10"
    by blast
  have "l = ''1,2,3,B,b,5,M,S,2 Nov 2021''" using l unfolding rows by simp
  then have "isIsoDate (date ?ob) \<and> length (date ?ob) = 10"
    using iso c8 side by blast
  then show ?thesis using pc r0 by simp
qed

text \<open>
  C3 as stated fails: a two-digit year part gives a record whose date has 8 characters.
\<close>

theorem observation_date_not_iso_counterexample:
  "parseCSV (\<lambda>s. None) (''header'' @ [CHR 0x0A] @ ''1,2,3,B,b,5,M,S,2 Nov 21'') =
     Inr [\<lparr>date = ''21-11-02'', sciName = Str ''b'', common = Str ''B'',
           location = ''M'', region = Str ''S''\<rparr>] \<and>
   \<not> isIsoDate ''21-11-02'' \<and> length ''21-11-02'' \<noteq> 10"
  by code_simp

section \<open>Properties of the sort and of date values\<close>






























section \<open>Claims about the order of the output\<close>














text \<open>
  The same holds whatever the engine-specific part of \<open>Date.parse\<close> does, since
  \<open>2021-11-99\<close> has an out-of-bounds day. With a record whose date does not parse
  between them, two valid dates stay in input order.
\<close>

lemma parseCSV_unparsed_date_any_engine:
  "map date (projr (parseCSV impl
     (''header'' @ CHR 0x0A # ''1,2,3,A,a,5,L,R,99 Nov 2021'' @ CHR 0x0A # ''1,2,3,B,b,5,M,S,02 Nov 2021''))) =
   [''2021-11-99'', ''2021-11-02'']"
  by code_simp

lemma parseCSV_unparsed_date_between:
  "map date (projr (parseCSV (\<lambda>s. None)
     (''header'' @ CHR 0x0A # ''1,2,3,A,a,5,L,R,10 May 2023'' @ CHR 0x0A #
      ''1,2,3,C,c,5,N,T,99 Nov 2021'' @ CHR 0x0A # ''1,2,3,B,b,5,M,S,02 Nov 2021''))) =
   [''2023-05-10'', ''2021-11-99'', ''2021-11-02'']"
  by code_simp

end
